theory Spec2Isabelle
  imports Complex_Main "HOL-Library.Multiset" "HOL-Library.Char_ord" "HOL-Library.List_Lexorder"
begin

section \<open>The waste-zone store of \<open>database.py\<close>\<close>

text \<open>
  The two SQLite tables of \<open>init_db\<close> are modelled as lists of rows in rowid order, the
  order in which a full table scan without \<open>ORDER BY\<close> reads them. The columns keep
  their names, except that the two \<open>id\<close> columns are told apart as \<open>photo_id\<close> and
  \<open>zone_id\<close>. SQL \<open>INTEGER\<close> and Python's integers are \<open>int\<close>; SQL \<open>REAL\<close> and Python's
  floats are idealised as \<open>real\<close> (no rounding error, no NaN, no infinity); \<open>TEXT\<close> is
  \<open>string\<close>, compared byte by byte as SQLite's default collation does.
\<close>

record photo =
  photo_id :: int
  image_path :: string
  latitude :: real
  longitude :: real
  timestamp :: string
  waste_category :: string
  severity_score :: real
  confidence :: real
  is_verified :: bool

record zone =
  zone_id :: int
  center_lat :: real
  center_lng :: real
  radius :: real
  waste_level :: int
  photo_count :: int
  last_updated :: string

record database =
  photos :: "photo list"
  zones :: "zone list"

definition empty_db :: database where
  "empty_db = \<lparr>photos = [], zones = []\<rparr>"

text \<open>
  What an upload reads from outside its arguments and the store: the two readings of
  \<open>datetime.now().isoformat()\<close>, one in \<open>add_photo\<close> and a later one in \<open>update_zone\<close>.
\<close>

record world =
  now_add_photo :: string
  now_update_zone :: string

datatype error = OperationalError | ZeroDivisionError

text \<open>Python's \<open>int(x)\<close> on a float: truncation towards zero.\<close>

definition py_int :: "real \<Rightarrow> int" where
  "py_int x = (if 0 \<le> x then \<lfloor>x\<rfloor> else \<lceil>x\<rceil>)"

text \<open>
  \<open>INTEGER PRIMARY KEY AUTOINCREMENT\<close>: the new rowid is one more than the largest
  rowid the table ever held. No row is ever deleted, so that is the largest id present
  (0 for an empty table).
\<close>

definition next_id :: "int list \<Rightarrow> int" where
  "next_id ids = fold max ids 0 + 1"

text \<open>
  \<open>ORDER BY k DESC\<close> over the rows in scan order. SQL leaves the order among rows of
  equal key open; the model keeps them in scan order (a stable insertion sort).
\<close>

fun insert_desc :: "('a \<Rightarrow> 'k::linorder) \<Rightarrow> 'a \<Rightarrow> 'a list \<Rightarrow> 'a list" where
  "insert_desc k x [] = [x]"
| "insert_desc k x (y # ys) = (if k y \<le> k x then x # y # ys else y # insert_desc k x ys)"

definition order_by_desc :: "('a \<Rightarrow> 'k::linorder) \<Rightarrow> 'a list \<Rightarrow> 'a list" where
  "order_by_desc k xs = foldr (insert_desc k) xs []"

text \<open>The \<open>WHERE\<close> clause of both zone lookups:
  \<open>ABS(center_lat - ?) < ? AND ABS(center_lng - ?) < ?\<close>.\<close>

definition in_cell :: "real \<Rightarrow> real \<Rightarrow> real \<Rightarrow> zone \<Rightarrow> bool" where
  "in_cell lat lng rad z \<longleftrightarrow> \<bar>center_lat z - lat\<bar> < rad \<and> \<bar>center_lng z - lng\<bar> < rad"

definition default_radius :: real where
  "default_radius = 0.005"

subsection \<open>\<open>update_zone\<close>\<close>

text \<open>
  \<open>update_zone\<close> works on a connection of its own. Beside the arguments of the source
  the model takes the clock reading \<open>now\<close> of the call and the flag \<open>locked\<close>: whether
  another connection holds an uncommitted write on the database file when the call is
  made. SQLite lets one connection write at a time: under the lock the \<open>SELECT\<close> still
  reads, and the \<open>UPDATE\<close> or \<open>INSERT\<close> raises \<open>sqlite3.OperationalError\<close> (database is
  locked).

  \<open>cursor.fetchone()\<close> takes the first matching row of the scan. The count is
  incremented first and the incremented value is used in the average, as the source
  does. A raised exception leaves the store as it was (nothing was committed), so the
  error result carries no store.
\<close>

definition update_zone ::
  "bool \<Rightarrow> string \<Rightarrow> database \<Rightarrow> real \<Rightarrow> real \<Rightarrow> real \<Rightarrow> real \<Rightarrow> error + database" where
  "update_zone locked now db lat lng sev rad =
     (case find (in_cell lat lng rad) (zones db) of
        Some zone \<Rightarrow>
          (let zid = zone_id zone;
               current_level = waste_level zone;
               count = photo_count zone + 1
           in if count + 1 = 0 then Inl ZeroDivisionError
              else
                (let new_level =
                       py_int ((real_of_int (current_level * count) + sev) / real_of_int (count + 1))
                 in if locked then Inl OperationalError
                    else Inr (db\<lparr>zones :=
                           map (\<lambda>z. if zone_id z = zid
                                     then z\<lparr>waste_level := new_level, photo_count := count,
                                            last_updated := now\<rparr>
                                     else z) (zones db)\<rparr>)))
      | None \<Rightarrow>
          if locked then Inl OperationalError
          else Inr (db\<lparr>zones := zones db @
                 [\<lparr>zone_id = next_id (map zone_id (zones db)), center_lat = lat,
                   center_lng = lng, radius = rad, waste_level = py_int sev,
                   photo_count = 1, last_updated = now\<rparr>]\<rparr>))"

subsection \<open>\<open>add_photo\<close>\<close>

text \<open>
  The photo row is inserted on the function's own connection and committed only after
  \<open>update_zone\<close> has returned. So \<open>update_zone\<close>, which opens a second connection, is
  called while the first one holds the uncommitted \<open>INSERT\<close>: it runs with the database
  locked. An exception of \<open>update_zone\<close> is not caught: it leaves \<open>add_photo\<close> before
  \<open>conn.commit()\<close> and before \<open>return photo_id\<close>, so the insert is discarded with the
  connection. The result is the raised error or the returned id, paired with the store
  after the call.
\<close>

definition add_photo ::
  "world \<Rightarrow> database \<Rightarrow> string \<Rightarrow> real \<Rightarrow> real \<Rightarrow> string \<Rightarrow> real \<Rightarrow> real
     \<Rightarrow> (error + int) \<times> database" where
  "add_photo w db path lat lng category sev conf =
     (let row = \<lparr>photo_id = next_id (map photo_id (photos db)), image_path = path,
                 latitude = lat, longitude = lng, timestamp = now_add_photo w,
                 waste_category = category, severity_score = sev, confidence = conf,
                 is_verified = False\<rparr>
      in case update_zone True (now_update_zone w) db lat lng sev default_radius of
           Inl e \<Rightarrow> (Inl e, db)
         | Inr db' \<Rightarrow> (Inr (photo_id row), db'\<lparr>photos := photos db' @ [row]\<rparr>))"

subsection \<open>The read operations\<close>

definition get_all_photos :: "database \<Rightarrow> photo list" where
  "get_all_photos db = order_by_desc timestamp (photos db)"

definition get_photos_in_bounds :: "database \<Rightarrow> real \<Rightarrow> real \<Rightarrow> real \<Rightarrow> real \<Rightarrow> photo list" where
  "get_photos_in_bounds db north south east west =
     order_by_desc timestamp
       (filter (\<lambda>p. latitude p \<le> north \<and> latitude p \<ge> south \<and>
                    longitude p \<le> east \<and> longitude p \<ge> west) (photos db))"

definition get_photo_by_id :: "database \<Rightarrow> int \<Rightarrow> photo option" where
  "get_photo_by_id db pid = find (\<lambda>p. photo_id p = pid) (photos db)"

definition get_all_zones :: "database \<Rightarrow> zone list" where
  "get_all_zones db = order_by_desc waste_level (zones db)"

text \<open>
  \<open>get_zone_by_location\<close> opens a connection, runs one \<open>SELECT\<close> and closes the
  connection; the model returns the store after the call beside the row.
\<close>

definition get_zone_by_location ::
  "database \<Rightarrow> real \<Rightarrow> real \<Rightarrow> real \<Rightarrow> zone option \<times> database" where
  "get_zone_by_location db lat lng rad = (find (in_cell lat lng rad) (zones db), db)"

text \<open>
  The handler \<open>get_photos\<close> of \<open>app.py\<close>: the bounding box is used when all four query
  parameters are present, otherwise every photo is returned. The parameters are taken
  as already parsed numbers.
\<close>

definition get_photos ::
  "database \<Rightarrow> real option \<Rightarrow> real option \<Rightarrow> real option \<Rightarrow> real option \<Rightarrow> photo list" where
  "get_photos db north south east west =
     (case (north, south, east, west) of
        (Some n, Some s, Some e, Some w) \<Rightarrow> get_photos_in_bounds db n s e w
      | _ \<Rightarrow> get_all_photos db)"

subsection \<open>Replaying a sequence of uploads\<close>

record report =
  r_path :: string
  r_lat :: real
  r_lng :: real
  r_category :: string
  r_severity :: real
  r_confidence :: real

definition upload :: "database \<Rightarrow> world \<times> report \<Rightarrow> database" where
  "upload db c =
     snd (add_photo (fst c) db (r_path (snd c)) (r_lat (snd c)) (r_lng (snd c))
            (r_category (snd c)) (r_severity (snd c)) (r_confidence (snd c)))"

definition replay :: "database \<Rightarrow> (world \<times> report) list \<Rightarrow> database" where
  "replay db cs = foldl upload db cs"

subsection \<open>Replaying a sequence of zone updates\<close>

text \<open>
  \<open>update_zone\<close> called on its own, with no other connection open: the clock reading of
  the call and the three arguments of a report, at a fixed radius. A call that raises
  leaves the store as it was.
\<close>

record zone_update =
  u_now :: string
  u_lat :: real
  u_lng :: real
  u_severity :: real

definition apply_update :: "real \<Rightarrow> database \<Rightarrow> zone_update \<Rightarrow> database" where
  "apply_update rad db u =
     (case update_zone False (u_now u) db (u_lat u) (u_lng u) (u_severity u) rad of
        Inl e \<Rightarrow> db
      | Inr db' \<Rightarrow> db')"

definition run_updates :: "real \<Rightarrow> database \<Rightarrow> zone_update list \<Rightarrow> database" where
  "run_updates rad db us = foldl (apply_update rad) db us"

subsection \<open>Auxiliary notions for the properties\<close>

text \<open>
  The range the aggregate level is meant to stay in, together with a count of at least
  one report per zone.
\<close>

definition zone_wf :: "zone \<Rightarrow> bool" where
  "zone_wf z \<longleftrightarrow> 0 \<le> waste_level z \<and> waste_level z \<le> 10 \<and> 1 \<le> photo_count z"


definition forget_radius :: "zone \<Rightarrow> zone" where
  "forget_radius z = z\<lparr>radius := 0\<rparr>"

subsection \<open>Sample calls and stores\<close>

text \<open>
  Two clock settings a day apart and three reports for \<open>add_photo\<close>, and the same three
  reports as zone updates for \<open>update_zone\<close> called on its own: the scenarios of the
  specification (a first report of severity 8, a second one 0.0001 degrees away of
  severity 4, a third one far away of severity 8), and a fourth update 0.0056 degrees
  north of the first. \<open>zones_8\<close> and \<open>zones_10\<close> are the stores after one zone update of
  severity 8 and of severity 10 at the place of the first report; \<open>zones_overlap\<close> is the
  store after the first and the fourth update, two zones whose cells overlap.
  \<open>store_1\<close>, \<open>store_12\<close> and \<open>store_13\<close> are stores that also hold photo rows.
\<close>

definition clock_1 :: world where
  "clock_1 = \<lparr>now_add_photo = ''2025-01-01T10:00:00.000100'',
              now_update_zone = ''2025-01-01T10:00:00.000900''\<rparr>"

definition clock_2 :: world where
  "clock_2 = \<lparr>now_add_photo = ''2025-01-02T10:00:00.000100'',
              now_update_zone = ''2025-01-02T10:00:00.000900''\<rparr>"

definition report_1 :: report where
  "report_1 = \<lparr>r_path = ''uploads/a.jpg'', r_lat = 18.5204, r_lng = 73.8567,
               r_category = ''mixed'', r_severity = 8, r_confidence = 0.9\<rparr>"


definition report_3 :: report where
  "report_3 = \<lparr>r_path = ''uploads/c.jpg'', r_lat = 18.6, r_lng = 73.9,
               r_category = ''organic'', r_severity = 8, r_confidence = 0.7\<rparr>"

definition update_1 :: zone_update where
  "update_1 = \<lparr>u_now = ''2025-01-01T10:00:00.000900'', u_lat = 18.5204, u_lng = 73.8567,
               u_severity = 8\<rparr>"

definition update_2 :: zone_update where
  "update_2 = \<lparr>u_now = ''2025-01-02T10:00:00.000900'', u_lat = 18.5205, u_lng = 73.8568,
               u_severity = 4\<rparr>"

definition update_3 :: zone_update where
  "update_3 = \<lparr>u_now = ''2025-01-02T10:00:00.000900'', u_lat = 18.6, u_lng = 73.9,
               u_severity = 8\<rparr>"

definition update_4 :: zone_update where
  "update_4 = \<lparr>u_now = ''2025-01-02T10:00:00.000900'', u_lat = 18.526, u_lng = 73.8567,
               u_severity = 2\<rparr>"

definition zones_8 :: database where
  "zones_8 = \<lparr>photos = [],
     zones = [\<lparr>zone_id = 1, center_lat = 18.5204, center_lng = 73.8567, radius = 0.005,
       waste_level = 8, photo_count = 1, last_updated = ''2025-01-01T10:00:00.000900''\<rparr>]\<rparr>"

definition zones_10 :: database where
  "zones_10 = \<lparr>photos = [],
     zones = [\<lparr>zone_id = 1, center_lat = 18.5204, center_lng = 73.8567, radius = 0.005,
       waste_level = 10, photo_count = 1, last_updated = ''2025-01-01T10:00:00.000900''\<rparr>]\<rparr>"

definition zones_overlap :: database where
  "zones_overlap = \<lparr>photos = [],
     zones = [\<lparr>zone_id = 1, center_lat = 18.5204, center_lng = 73.8567, radius = 0.005,
       waste_level = 8, photo_count = 1, last_updated = ''2025-01-01T10:00:00.000900''\<rparr>,
      \<lparr>zone_id = 2, center_lat = 18.526, center_lng = 73.8567, radius = 0.005,
       waste_level = 2, photo_count = 1, last_updated = ''2025-01-02T10:00:00.000900''\<rparr>]\<rparr>"

definition store_1 :: database where
  "store_1 = \<lparr>photos = [\<lparr>photo_id = 1, image_path = ''uploads/a.jpg'', latitude = 18.5204,
       longitude = 73.8567, timestamp = ''2025-01-01T10:00:00.000100'', waste_category = ''mixed'',
       severity_score = 8, confidence = 0.9, is_verified = False\<rparr>],
     zones = [\<lparr>zone_id = 1, center_lat = 18.5204, center_lng = 73.8567, radius = 0.005,
       waste_level = 8, photo_count = 1, last_updated = ''2025-01-01T10:00:00.000900''\<rparr>]\<rparr>"

definition store_12 :: database where
  "store_12 = \<lparr>photos = photos store_1,
     zones = [\<lparr>zone_id = 1, center_lat = 18.5204, center_lng = 73.8567, radius = 0.005,
       waste_level = 6, photo_count = 2, last_updated = ''2025-01-02T10:00:00.000900''\<rparr>]\<rparr>"

definition store_13 :: database where
  "store_13 = \<lparr>photos = [\<lparr>photo_id = 1, image_path = ''uploads/a.jpg'', latitude = 18.5204,
       longitude = 73.8567, timestamp = ''2025-01-01T10:00:00.000100'', waste_category = ''mixed'',
       severity_score = 8, confidence = 0.9, is_verified = False\<rparr>,
      \<lparr>photo_id = 2, image_path = ''uploads/c.jpg'', latitude = 18.6,
       longitude = 73.9, timestamp = ''2025-01-02T10:00:00.000100'', waste_category = ''organic'',
       severity_score = 8, confidence = 0.7, is_verified = False\<rparr>],
     zones = [\<lparr>zone_id = 1, center_lat = 18.5204, center_lng = 73.8567, radius = 0.005,
       waste_level = 8, photo_count = 1, last_updated = ''2025-01-01T10:00:00.000900''\<rparr>,
      \<lparr>zone_id = 2, center_lat = 18.6, center_lng = 73.9, radius = 0.005,
       waste_level = 8, photo_count = 1, last_updated = ''2025-01-02T10:00:00.000900''\<rparr>]\<rparr>"

section \<open>Basic facts\<close>

subsection \<open>Descending order\<close>

lemma mset_insert_desc: "mset (insert_desc k x ys) = add_mset x (mset ys)"
  by (induction ys) auto

lemma mset_order_by_desc: "mset (order_by_desc k xs) = mset xs"
  by (induction xs) (auto simp: order_by_desc_def mset_insert_desc)

lemma set_insert_desc: "set (insert_desc k x ys) = insert x (set ys)"
  by (induction ys) auto

lemma sorted_insert_desc:
  "sorted_wrt (\<lambda>a b. k b \<le> k a) ys \<Longrightarrow> sorted_wrt (\<lambda>a b. k b \<le> k a) (insert_desc k x ys)"
  by (induction ys) (auto simp: set_insert_desc)

lemma sorted_order_by_desc: "sorted_wrt (\<lambda>a b. k b \<le> k a) (order_by_desc k xs)"
  by (induction xs) (auto simp: order_by_desc_def sorted_insert_desc)

lemma filter_insert_desc:
  "filter (\<lambda>y. k y = l) (insert_desc k x ys) =
     (if k x = l then x # filter (\<lambda>y. k y = l) ys else filter (\<lambda>y. k y = l) ys)"
  by (induction ys) auto

lemma filter_order_by_desc:
  "filter (\<lambda>y. k y = l) (order_by_desc k xs) = filter (\<lambda>y. k y = l) xs"
proof (induction xs)
  case Nil
  then show ?case by (simp add: order_by_desc_def)
next
  case (Cons x xs)
  have "order_by_desc k (x # xs) = insert_desc k x (order_by_desc k xs)"
    by (simp add: order_by_desc_def)
  with Cons show ?case
    by (simp add: filter_insert_desc)
qed



subsection \<open>Fresh row ids\<close>

lemma fold_max_ge: "a \<le> fold max ids (a::int)"
  by (induction ids arbitrary: a) (auto intro: order_trans [OF max.cobounded2])

lemma fold_max_mem: "i \<in> set ids \<Longrightarrow> i \<le> fold max ids (a::int)"
proof (induction ids arbitrary: a)
  case Nil
  then show ?case by simp
next
  case (Cons j ids)
  show ?case
  proof (cases "i = j")
    case True
    have "j \<le> max j a" by simp
    also have "\<dots> \<le> fold max ids (max j a)" by (rule fold_max_ge)
    finally show ?thesis using True by simp
  next
    case False
    with Cons show ?thesis by simp
  qed
qed

lemma next_id_fresh: "i \<in> set ids \<Longrightarrow> i < next_id ids"
  using fold_max_mem [of i ids 0] by (simp add: next_id_def)

lemma ascending_snoc_next_id:
  assumes "sorted_wrt (<) ids"
  shows "sorted_wrt (<) (ids @ [next_id ids])"
  using assms by (simp add: sorted_wrt_append next_id_fresh)

subsection \<open>First match of a scan\<close>

lemma find_map_eq:
  assumes "\<And>x. P (h x) = P x"
  shows "find P (map h xs) = map_option h (find P xs)"
  using assms by (induction xs) auto

lemma find_related:
  assumes "map h xs = map h ys" and "\<And>x. P (h x) = P x"
  shows "map_option h (find P xs) = map_option h (find P ys)"
  using assms find_map_eq [of P h xs] find_map_eq [of P h ys] by simp

lemma map_update_at:
  assumes "distinct (map k xs)" and "i < length xs"
  shows "map (\<lambda>x. if k x = k (xs ! i) then g x else x) xs = xs[i := g (xs ! i)]"
proof (rule nth_equalityI)
  show "length (map (\<lambda>x. if k x = k (xs ! i) then g x else x) xs) = length (xs[i := g (xs ! i)])"
    by simp
next
  fix j assume "j < length (map (\<lambda>x. if k x = k (xs ! i) then g x else x) xs)"
  then have j: "j < length xs" by simp
  have "k (xs ! j) = k (xs ! i) \<longleftrightarrow> j = i"
    using assms j nth_eq_iff_index_eq [of "map k xs" j i] by simp
  with j show "map (\<lambda>x. if k x = k (xs ! i) then g x else x) xs ! j = xs[i := g (xs ! i)] ! j"
    by (simp add: nth_list_update)
qed

subsection \<open>The two branches of \<open>update_zone\<close>\<close>

lemma update_zone_cases:
  assumes "update_zone f now db lat lng sev rad = Inr db'"
  obtains
    (created) "find (in_cell lat lng rad) (zones db) = None" "\<not> f"
      "db' = db\<lparr>zones := zones db @
         [\<lparr>zone_id = next_id (map zone_id (zones db)), center_lat = lat, center_lng = lng,
           radius = rad, waste_level = py_int sev, photo_count = 1, last_updated = now\<rparr>]\<rparr>"
  | (updated) z0 where "find (in_cell lat lng rad) (zones db) = Some z0" "\<not> f"
      "photo_count z0 + 2 \<noteq> 0"
      "db' = db\<lparr>zones := map (\<lambda>z. if zone_id z = zone_id z0
           then z\<lparr>waste_level :=
                    py_int ((real_of_int (waste_level z0 * (photo_count z0 + 1)) + sev) /
                            real_of_int (photo_count z0 + 2)),
                  photo_count := photo_count z0 + 1, last_updated := now\<rparr>
           else z) (zones db)\<rparr>"
  using assms
  by (auto simp: update_zone_def Let_def add.assoc split: option.splits if_splits)

lemma update_zone_photos:
  "update_zone f now db lat lng sev rad = Inr db' \<Longrightarrow> photos db' = photos db"
  by (erule update_zone_cases) auto

lemma update_zone_ids:
  assumes "update_zone f now db lat lng sev rad = Inr db'"
  shows "map zone_id (zones db') = map zone_id (zones db) \<or>
         map zone_id (zones db') = map zone_id (zones db) @ [next_id (map zone_id (zones db))]"
  using assms
proof (cases rule: update_zone_cases)
  case created
  then show ?thesis by simp
next
  case (updated z0)
  have "map zone_id (zones db') = map zone_id (zones db)"
    unfolding updated(4) by (simp add: comp_def if_distrib cong: if_cong)
  then show ?thesis by simp
qed

lemma update_zone_ascending:
  assumes "update_zone f now db lat lng sev rad = Inr db'"
    and "sorted_wrt (<) (map zone_id (zones db))"
  shows "sorted_wrt (<) (map zone_id (zones db'))"
  using update_zone_ids [OF assms(1)] assms(2) ascending_snoc_next_id by auto

lemma update_zone_radius:
  assumes "update_zone f now db lat lng sev rad = Inr db'"
    and "\<forall>z\<in>set (zones db). radius z = rad"
  shows "\<forall>z\<in>set (zones db'). radius z = rad"
  using assms(1)
proof (cases rule: update_zone_cases)
  case created
  with assms(2) show ?thesis by auto
next
  case (updated z0)
  with assms(2) show ?thesis by auto
qed

lemma lookup_first_match:
  assumes "sorted_wrt (<) (map zone_id (zones db))"
  shows "snd (get_zone_by_location db lat lng rad) = db \<and>
    (case fst (get_zone_by_location db lat lng rad) of
       None \<Rightarrow> \<forall>z\<in>set (zones db). \<not> (\<bar>lat - center_lat z\<bar> < rad \<and> \<bar>lng - center_lng z\<bar> < rad)
     | Some z \<Rightarrow> z \<in> set (zones db) \<and> \<bar>lat - center_lat z\<bar> < rad \<and> \<bar>lng - center_lng z\<bar> < rad \<and>
         (\<forall>z'\<in>set (zones db). \<bar>lat - center_lat z'\<bar> < rad \<and> \<bar>lng - center_lng z'\<bar> < rad
             \<longrightarrow> zone_id z \<le> zone_id z'))"
proof (cases "find (in_cell lat lng rad) (zones db)")
  case None
  then have "\<forall>z\<in>set (zones db). \<not> in_cell lat lng rad z"
    by (simp add: find_None_iff)
  then have "\<forall>z\<in>set (zones db). \<not> (\<bar>lat - center_lat z\<bar> < rad \<and> \<bar>lng - center_lng z\<bar> < rad)"
    by (simp add: in_cell_def abs_minus_commute)
  then show ?thesis
    by (simp add: get_zone_by_location_def None)
next
  case (Some z)
  then obtain i where i: "i < length (zones db)" "z = zones db ! i" "in_cell lat lng rad z"
    "\<forall>j<i. \<not> in_cell lat lng rad (zones db ! j)"
    by (auto simp: find_Some_iff)
  have "zone_id z \<le> zone_id z'" if "z' \<in> set (zones db)" "in_cell lat lng rad z'" for z'
  proof -
    from that(1) obtain j where j: "j < length (zones db)" "z' = zones db ! j"
      by (auto simp: in_set_conv_nth)
    with that(2) i(4) have "i \<le> j" by (meson not_le)
    then consider "i = j" | "i < j" by linarith
    then show ?thesis
    proof cases
      case 1
      with i j show ?thesis by simp
    next
      case 2
      with assms j(1) have "map zone_id (zones db) ! i < map zone_id (zones db) ! j"
        by (simp add: sorted_wrt_iff_nth_less)
      with i j 2 show ?thesis by simp
    qed
  qed
  then have "\<forall>z'\<in>set (zones db).
      \<bar>lat - center_lat z'\<bar> < rad \<and> \<bar>lng - center_lng z'\<bar> < rad \<longrightarrow> zone_id z \<le> zone_id z'"
    by (simp add: in_cell_def abs_minus_commute)
  moreover have "z \<in> set (zones db)" using i(1,2) by simp
  moreover have "\<bar>lat - center_lat z\<bar> < rad \<and> \<bar>lng - center_lng z\<bar> < rad"
    using i(3) by (simp add: in_cell_def abs_minus_commute)
  ultimately show ?thesis
    by (simp add: get_zone_by_location_def Some)
qed

lemma update_zone_first_match:
  assumes asc: "sorted_wrt (<) (map zone_id (zones db))"
    and upd: "update_zone f now db lat lng sev rad = Inr db'"
  shows "case fst (get_zone_by_location db lat lng rad) of
       None \<Rightarrow> \<exists>z. zones db' = zones db @ [z] \<and> center_lat z = lat \<and> center_lng z = lng
     | Some z \<Rightarrow> \<exists>i lvl. i < length (zones db) \<and> zones db ! i = z \<and>
         (\<forall>j<i. \<not> (\<bar>lat - center_lat (zones db ! j)\<bar> < rad \<and>
                    \<bar>lng - center_lng (zones db ! j)\<bar> < rad)) \<and>
         zones db' = (zones db)[i := z\<lparr>waste_level := lvl, photo_count := photo_count z + 1,
                                       last_updated := now\<rparr>]"
  using upd
proof (cases rule: update_zone_cases)
  case created
  then show ?thesis by (simp add: get_zone_by_location_def)
next
  case (updated z0)
  from updated(1) obtain i where i: "i < length (zones db)" "z0 = zones db ! i"
    "\<forall>j<i. \<not> in_cell lat lng rad (zones db ! j)"
    by (auto simp: find_Some_iff)
  have d: "distinct (map zone_id (zones db))" using asc by (simp add: strict_sorted_iff)
  let ?lvl = "py_int ((real_of_int (waste_level z0 * (photo_count z0 + 1)) + sev) /
                      real_of_int (photo_count z0 + 2))"
  have "zones db' = (zones db)[i := (zones db ! i)\<lparr>waste_level := ?lvl,
      photo_count := photo_count z0 + 1, last_updated := now\<rparr>]"
    unfolding updated(4) i(2) using map_update_at [OF d i(1)] by simp
  then have "zones db' = (zones db)[i := z0\<lparr>waste_level := ?lvl,
      photo_count := photo_count z0 + 1, last_updated := now\<rparr>]"
    by (simp only: i(2))
  moreover have "\<forall>j<i. \<not> (\<bar>lat - center_lat (zones db ! j)\<bar> < rad \<and>
                    \<bar>lng - center_lng (zones db ! j)\<bar> < rad)"
    using i(3) by (simp add: in_cell_def abs_minus_commute)
  ultimately have "\<exists>i lvl. i < length (zones db) \<and> zones db ! i = z0 \<and>
         (\<forall>j<i. \<not> (\<bar>lat - center_lat (zones db ! j)\<bar> < rad \<and>
                    \<bar>lng - center_lng (zones db ! j)\<bar> < rad)) \<and>
         zones db' = (zones db)[i := z0\<lparr>waste_level := lvl, photo_count := photo_count z0 + 1,
                                       last_updated := now\<rparr>]"
    using i(1,2) by blast
  then show ?thesis by (simp add: get_zone_by_location_def updated(1))
qed

subsection \<open>The quotient stays in range\<close>

lemma py_int_floor: "0 \<le> x \<Longrightarrow> py_int x = \<lfloor>x\<rfloor>"
  by (simp add: py_int_def)

lemma average_range:
  fixes L c :: int and s :: real
  assumes "0 \<le> L" "L \<le> 10" "1 \<le> c" "0 \<le> s" "s \<le> 10"
  shows "0 \<le> (real_of_int (L * c) + s) / real_of_int (c + 1)"
    and "(real_of_int (L * c) + s) / real_of_int (c + 1) \<le> 10"
proof -
  have c: "0 < real_of_int (c + 1)" using assms(3) by simp
  have n: "0 \<le> real_of_int (L * c)" using assms(1,3) by simp
  show "0 \<le> (real_of_int (L * c) + s) / real_of_int (c + 1)"
    using c n assms(4) by simp
  have "L * c \<le> 10 * c" using assms(2,3) by (simp add: mult_right_mono)
  then have "real_of_int (L * c) \<le> real_of_int (10 * c)" by (simp only: of_int_le_iff)
  then have "real_of_int (L * c) + s \<le> 10 * real_of_int (c + 1)" using assms(5) by simp
  then show "(real_of_int (L * c) + s) / real_of_int (c + 1) \<le> 10"
    using c by (simp add: pos_divide_le_eq)
qed

lemma update_zone_level_step:
  assumes wf: "\<forall>z\<in>set (zones db). zone_wf z"
    and sev: "0 \<le> sev" "sev \<le> 10"
    and upd: "update_zone f now db lat lng sev rad = Inr db'"
    and z': "z' \<in> set (zones db')"
  shows "zone_wf z' \<and>
    (z' \<in> set (zones db) \<or>
     waste_level z' = \<lfloor>sev\<rfloor> \<and> photo_count z' = 1 \<or>
     (\<exists>z\<in>set (zones db). zone_id z' = zone_id z \<and> photo_count z' = photo_count z + 1 \<and>
        waste_level z' =
          \<lfloor>(real_of_int (waste_level z * (photo_count z + 1)) + sev) /
            real_of_int (photo_count z + 2)\<rfloor>))"
  using upd
proof (cases rule: update_zone_cases)
  case created
  show ?thesis
  proof (cases "z' \<in> set (zones db)")
    case True
    with wf show ?thesis by simp
  next
    case False
    with z' created(3) have "z' = \<lparr>zone_id = next_id (map zone_id (zones db)), center_lat = lat,
        center_lng = lng, radius = rad, waste_level = py_int sev, photo_count = 1,
        last_updated = now\<rparr>"
      by simp
    moreover have "0 \<le> \<lfloor>sev\<rfloor>" "\<lfloor>sev\<rfloor> \<le> 10" using sev by (simp_all add: floor_le_iff)
    ultimately show ?thesis using sev(1) by (simp add: zone_wf_def py_int_floor)
  qed
next
  case (updated z0)
  from updated(1) have z0: "z0 \<in> set (zones db)" by (auto simp: find_Some_iff)
  with wf have w0: "0 \<le> waste_level z0" "waste_level z0 \<le> 10" "1 \<le> photo_count z0"
    by (simp_all add: zone_wf_def)
  let ?q = "(real_of_int (waste_level z0 * (photo_count z0 + 1)) + sev) /
            real_of_int (photo_count z0 + 2)"
  have c1: "1 \<le> photo_count z0 + 1" using w0(3) by simp
  have q: "0 \<le> ?q" "?q \<le> 10"
    using average_range [OF w0(1,2) c1 sev] by (simp_all add: add.assoc)
  then have fl: "py_int ?q = \<lfloor>?q\<rfloor>" "0 \<le> \<lfloor>?q\<rfloor>" "\<lfloor>?q\<rfloor> \<le> 10"
    by (simp_all add: py_int_floor floor_le_iff)
  from z' updated(4) obtain z where z: "z \<in> set (zones db)"
    "z' = (if zone_id z = zone_id z0
           then z\<lparr>waste_level := py_int ?q, photo_count := photo_count z0 + 1,
                  last_updated := now\<rparr>
           else z)"
    by auto
  show ?thesis
  proof (cases "zone_id z = zone_id z0")
    case True
    with z(2) have "zone_id z' = zone_id z0" "photo_count z' = photo_count z0 + 1"
      "waste_level z' = py_int ?q"
      by simp_all
    moreover from this(3) have "waste_level z' = \<lfloor>?q\<rfloor>" by (simp only: fl(1))
    ultimately show ?thesis using z0 fl(2,3) w0(3) unfolding zone_wf_def by force
  next
    case False
    with z wf show ?thesis by simp
  qed
qed

subsection \<open>Uploads never get past the lock\<close>

text \<open>
  Inside \<open>add_photo\<close> the zone update runs with the database locked, so it raises, and
  \<open>add_photo\<close> raises with it: no upload changes the store.
\<close>

lemma update_zone_locked:
  "update_zone True now db lat lng sev rad = Inl OperationalError \<or>
   update_zone True now db lat lng sev rad = Inl ZeroDivisionError"
  by (simp add: update_zone_def Let_def split: option.splits)

lemma add_photo_raises:
  "\<exists>e. add_photo w db path lat lng category sev conf = (Inl e, db)"
  using update_zone_locked [of "now_update_zone w" db lat lng sev default_radius]
  by (auto simp: add_photo_def)

lemma upload_unchanged: "upload db c = db"
  using add_photo_raises [of "fst c" db "r_path (snd c)" "r_lat (snd c)" "r_lng (snd c)"
      "r_category (snd c)" "r_severity (snd c)" "r_confidence (snd c)"]
  by (auto simp: upload_def)

lemma replay_unchanged: "replay db cs = db"
  by (induction cs arbitrary: db) (simp_all add: replay_def upload_unchanged)

subsection \<open>Sequences of zone updates\<close>

lemma run_updates_Nil: "run_updates rad db [] = db"
  by (simp add: run_updates_def)

lemma run_updates_Cons: "run_updates rad db (u # us) = run_updates rad (apply_update rad db u) us"
  by (simp add: run_updates_def)

lemma run_updates_invariant:
  assumes "P db" and "\<And>d u. P d \<Longrightarrow> u \<in> set us \<Longrightarrow> P (apply_update rad d u)"
  shows "P (run_updates rad db us)"
  using assms
proof (induction us arbitrary: db)
  case Nil
  then show ?case by (simp add: run_updates_Nil)
next
  case (Cons u us)
  have "P (apply_update rad db u)" using Cons.prems by simp
  then show ?case
    unfolding run_updates_Cons using Cons.prems(2) by (intro Cons.IH) simp_all
qed

lemma apply_update_cases:
  obtains (raised) "apply_update rad db u = db"
  | (written) dz where
      "update_zone False (u_now u) db (u_lat u) (u_lng u) (u_severity u) rad = Inr dz"
      "apply_update rad db u = dz"
  by (cases "update_zone False (u_now u) db (u_lat u) (u_lng u) (u_severity u) rad")
     (auto simp: apply_update_def)

lemma run_updates_zone_wf:
  assumes "\<forall>u\<in>set us. 0 \<le> u_severity u \<and> u_severity u \<le> 10"
  shows "\<forall>z\<in>set (zones (run_updates rad empty_db us)). zone_wf z"
proof (rule run_updates_invariant [where P = "\<lambda>d::database. \<forall>z\<in>set (zones d). zone_wf z"])
  show "\<forall>z\<in>set (zones empty_db). zone_wf z" by (simp add: empty_db_def)
next
  fix d :: database and u
  assume inv: "\<forall>z\<in>set (zones d). zone_wf z" and u: "u \<in> set us"
  show "\<forall>z\<in>set (zones (apply_update rad d u)). zone_wf z"
  proof (cases rule: apply_update_cases [of rad d u])
    case raised
    with inv show ?thesis by simp
  next
    case (written dz)
    have sev: "0 \<le> u_severity u" "u_severity u \<le> 10" using assms u by simp_all
    show ?thesis
      using update_zone_level_step [OF inv sev written(1)] written(2) by simp
  qed
qed

lemma run_updates_level_range:
  assumes "\<forall>u\<in>set us. 0 \<le> u_severity u \<and> u_severity u \<le> 10"
    and "z \<in> set (zones (run_updates rad empty_db us))"
  shows "0 \<le> waste_level z \<and> waste_level z \<le> 10"
  using run_updates_zone_wf [OF assms(1)] assms(2) by (simp add: zone_wf_def)

lemma run_updates_radius:
  "\<forall>z\<in>set (zones (run_updates rad empty_db us)). radius z = rad"
proof (rule run_updates_invariant [where P = "\<lambda>d::database. \<forall>z\<in>set (zones d). radius z = rad"])
  show "\<forall>z\<in>set (zones empty_db). radius z = rad" by (simp add: empty_db_def)
next
  fix d :: database and u
  assume inv: "\<forall>z\<in>set (zones d). radius z = rad"
  show "\<forall>z\<in>set (zones (apply_update rad d u)). radius z = rad"
  proof (cases rule: apply_update_cases [of rad d u])
    case raised
    with inv show ?thesis by simp
  next
    case (written dz)
    with update_zone_radius [OF written(1) inv] show ?thesis by simp
  qed
qed

lemma run_updates_ids_ascending:
  "sorted_wrt (<) (map zone_id (zones (run_updates rad empty_db us)))"
proof (rule run_updates_invariant [where P = "\<lambda>d::database. sorted_wrt (<) (map zone_id (zones d))"])
  show "sorted_wrt (<) (map zone_id (zones empty_db))" by (simp add: empty_db_def)
next
  fix d :: database and u
  assume inv: "sorted_wrt (<) (map zone_id (zones d))"
  show "sorted_wrt (<) (map zone_id (zones (apply_update rad d u)))"
  proof (cases rule: apply_update_cases [of rad d u])
    case raised
    with inv show ?thesis by simp
  next
    case (written dz)
    with update_zone_ascending [OF written(1) inv] show ?thesis by simp
  qed
qed

lemma run_updates_ids_distinct:
  "distinct (map zone_id (zones (run_updates rad empty_db us)))"
  using run_updates_ids_ascending [of rad us] by (simp add: strict_sorted_iff)

subsection \<open>Stores that differ in one column\<close>

lemma update_zone_related:
  fixes h :: "zone \<Rightarrow> zone" and u :: "int \<Rightarrow> int \<Rightarrow> zone \<Rightarrow> zone"
  assumes keep: "\<And>z. zone_id (h z) = zone_id z" "\<And>z. center_lat (h z) = center_lat z"
      "\<And>z. center_lng (h z) = center_lng z" "\<And>z. waste_level (h z) = waste_level z"
      "\<And>z. photo_count (h z) = photo_count z"
    and upd: "\<And>z a b. h (z\<lparr>waste_level := a, photo_count := b, last_updated := t1\<rparr>) = u a b (h z)"
      "\<And>z a b. h (z\<lparr>waste_level := a, photo_count := b, last_updated := t2\<rparr>) = u a b (h z)"
    and new: "\<And>i a b l c.
      h \<lparr>zone_id = i, center_lat = a, center_lng = b, radius = rad, waste_level = l,
         photo_count = c, last_updated = t1\<rparr> =
      h \<lparr>zone_id = i, center_lat = a, center_lng = b, radius = rad, waste_level = l,
         photo_count = c, last_updated = t2\<rparr>"
    and rel: "map h (zones db1) = map h (zones db2)"
  shows "rel_sum (=) (\<lambda>d1 d2. map h (zones d1) = map h (zones d2) \<and>
            photos d1 = photos db1 \<and> photos d2 = photos db2)
          (update_zone f t1 db1 lat lng sev rad) (update_zone f t2 db2 lat lng sev rad)"
proof -
  have cell: "in_cell lat lng rad (h z) = in_cell lat lng rad z" for z
    by (simp add: in_cell_def keep)
  have fnd: "map_option h (find (in_cell lat lng rad) (zones db1)) =
             map_option h (find (in_cell lat lng rad) (zones db2))"
    using rel cell by (rule find_related)
  have ids: "map zone_id (zones db1) = map zone_id (zones db2)"
  proof -
    have "map zone_id (zones d) = map zone_id (map h (zones d))" for d :: database
      by (simp add: keep)
    with rel show ?thesis by metis
  qed
  show ?thesis
  proof (cases "find (in_cell lat lng rad) (zones db1)")
    case None
    with fnd have None2: "find (in_cell lat lng rad) (zones db2) = None" by simp
    show ?thesis
      by (simp add: update_zone_def None None2 rel ids new)
  next
    case (Some z1)
    with fnd obtain z2 where Some2: "find (in_cell lat lng rad) (zones db2) = Some z2"
      and hz: "h z1 = h z2"
      by (cases "find (in_cell lat lng rad) (zones db2)") auto
    have same: "zone_id z1 = zone_id z2" "waste_level z1 = waste_level z2"
      "photo_count z1 = photo_count z2"
      using hz keep by metis+
    have m: "map h (map (\<lambda>z. if zone_id z = i then z\<lparr>waste_level := a, photo_count := b,
                 last_updated := t\<rparr> else z) zs) =
             map (\<lambda>y. if zone_id y = i then u a b y else y) (map h zs)"
      if "t = t1 \<or> t = t2" for i a b t zs
      using that by (auto simp: keep upd)
    show ?thesis
      by (simp add: update_zone_def Some Some2 same Let_def m rel del: map_map)
  qed
qed


lemma update_zone_related_radius:
  assumes "map forget_radius (zones db1) = map forget_radius (zones db2)"
  shows "rel_sum (=) (\<lambda>d1 d2. map forget_radius (zones d1) = map forget_radius (zones d2) \<and>
            photos d1 = photos db1 \<and> photos d2 = photos db2)
          (update_zone f now db1 lat lng sev rad) (update_zone f now db2 lat lng sev rad)"
  by (rule update_zone_related
        [where u = "\<lambda>a b y. y\<lparr>waste_level := a, photo_count := b, last_updated := now\<rparr>",
         OF _ _ _ _ _ _ _ _ assms])
     (simp_all add: forget_radius_def)



subsection \<open>The sample stores\<close>

lemmas run_defs = run_updates_def apply_update_def update_zone_def in_cell_def
  default_radius_def py_int_def next_id_def empty_db_def
  update_1_def update_2_def update_3_def update_4_def

lemma update_store_1:
  "update_zone False ''2025-01-02T10:00:00.000900'' store_1 18.5205 73.8568 4 default_radius =
     Inr store_12"
  by (simp add: run_defs store_1_def store_12_def)

lemma run_updates_overlap:
  "run_updates default_radius empty_db [update_1, update_4] = zones_overlap"
  by (simp add: run_defs zones_overlap_def)

lemma run_updates_13:
  "zones (run_updates default_radius empty_db [update_1, update_3]) = zones store_13"
  by (simp add: run_defs store_13_def)

section \<open>The claims\<close>

subsection \<open>C1: the level written for an existing zone\<close>

text \<open>
  Claim C1 states that a report of severity \<open>s\<close> landing in a zone of level \<open>L\<close> and count
  \<open>c\<close> sets the level to \<open>floor ((L * c + s) / (c + 1))\<close> and the count to \<open>c + 1\<close>.
  \<open>update_zone\<close> increments the count first and then uses the incremented count in the
  average, so it writes \<open>floor ((L * (c + 1) + s) / (c + 2))\<close>. Called on the empty store
  with severity 8 it leaves one zone of level 8 and count 1; called again 0.0001 degrees
  away with severity 0 it writes level 5 and count 2, where the claimed formula gives 4.
\<close>

theorem update_zone_average_off_by_one:
  "update_zone False ''2025-01-01T10:00:00.000900'' empty_db 18.5204 73.8567 8 default_radius =
     Inr zones_8 \<and>
   update_zone False ''2025-01-02T10:00:00.000900'' zones_8 18.5205 73.8568 0 default_radius =
     Inr (zones_8\<lparr>zones :=
       [\<lparr>zone_id = 1, center_lat = 18.5204, center_lng = 73.8567, radius = 0.005,
         waste_level = 5, photo_count = 2, last_updated = ''2025-01-02T10:00:00.000900''\<rparr>]\<rparr>) \<and>
   \<lfloor>((8::real) * 1 + 0) / (1 + 1)\<rfloor> = (4::int)"
  by (simp add: run_defs zones_8_def)

subsection \<open>C2: an upload whose zone update fails\<close>

text \<open>
  Claim C2 states that the report is persisted and its identifier returned even when the
  zone update fails. In \<open>add_photo\<close> the zone update always fails, because it writes
  through a second connection while the photo insert is uncommitted on the first, and
  the exception is not caught: the first upload to an empty store ends with
  \<open>OperationalError\<close>, returns no identifier and leaves no photo row.
\<close>

theorem add_photo_raises_on_upload:
  "add_photo clock_1 empty_db ''uploads/a.jpg'' 18.5204 73.8567 ''mixed'' 8 0.9 =
     (Inl OperationalError, empty_db) \<and>
   get_all_photos empty_db = [] \<and> get_photo_by_id empty_db 1 = None"
  by (simp add: add_photo_def run_defs clock_1_def get_all_photos_def order_by_desc_def
        get_photo_by_id_def)

subsection \<open>C3: replaying a sequence of reports\<close>




subsection \<open>C4: the zone created for a report outside every cell\<close>




subsection \<open>C5: looking a zone up by location\<close>

text \<open>
  Claim C5: with the zone rows read in ascending id order, \<open>get_zone_by_location\<close> leaves
  the store as it is and returns a zone whose cell strictly contains the location and
  whose id is the least among such zones, or nothing when no zone's cell contains the
  location. The lookup inside \<open>update_zone\<close> finds the same row: a returning call
  rewrites exactly the row \<open>get_zone_by_location\<close> returns, the first of the scan whose
  cell contains the location, and appends a zone at the location when
  \<open>get_zone_by_location\<close> returns nothing. The cell is measured with the radius argument
  of the call (0.005 by default, which is also the radius of every zone created with the
  default, see \<open>run_updates_radius\<close>). Stores built by zone updates have ascending ids
  (\<open>run_updates_ids_ascending\<close>).
\<close>

theorem get_zone_by_location_first_match:
  assumes "sorted_wrt (<) (map zone_id (zones db))"
  shows "snd (get_zone_by_location db lat lng rad) = db \<and>
    (case fst (get_zone_by_location db lat lng rad) of
       None \<Rightarrow> \<forall>z\<in>set (zones db). \<not> (\<bar>lat - center_lat z\<bar> < rad \<and> \<bar>lng - center_lng z\<bar> < rad)
     | Some z \<Rightarrow> z \<in> set (zones db) \<and> \<bar>lat - center_lat z\<bar> < rad \<and> \<bar>lng - center_lng z\<bar> < rad \<and>
         (\<forall>z'\<in>set (zones db). \<bar>lat - center_lat z'\<bar> < rad \<and> \<bar>lng - center_lng z'\<bar> < rad
             \<longrightarrow> zone_id z \<le> zone_id z')) \<and>
    (\<forall>f now sev db'. update_zone f now db lat lng sev rad = Inr db' \<longrightarrow>
      (case fst (get_zone_by_location db lat lng rad) of
         None \<Rightarrow> \<exists>z. zones db' = zones db @ [z] \<and> center_lat z = lat \<and> center_lng z = lng
       | Some z \<Rightarrow> \<exists>i lvl. i < length (zones db) \<and> zones db ! i = z \<and>
           (\<forall>j<i. \<not> (\<bar>lat - center_lat (zones db ! j)\<bar> < rad \<and>
                      \<bar>lng - center_lng (zones db ! j)\<bar> < rad)) \<and>
           zones db' = (zones db)[i := z\<lparr>waste_level := lvl, photo_count := photo_count z + 1,
                                         last_updated := now\<rparr>]))"
  using lookup_first_match [OF assms, of lat lng rad] update_zone_first_match [OF assms]
  by blast

theorem get_zone_by_location_first_match_witness:
  "sorted_wrt (<) (map zone_id (zones store_13)) \<and>
   snd (get_zone_by_location store_13 18.5205 73.8568 default_radius) = store_13 \<and>
   map_option zone_id (fst (get_zone_by_location store_13 18.5205 73.8568 default_radius)) = Some 1 \<and>
   fst (get_zone_by_location store_13 19 73.8568 default_radius) = None \<and>
   sorted_wrt (<) (map zone_id (zones zones_overlap)) \<and>
   map zone_id (filter (in_cell 18.524 73.8567 default_radius) (zones zones_overlap)) = [1, 2] \<and>
   map_option zone_id (fst (get_zone_by_location zones_overlap 18.524 73.8567 default_radius)) =
     Some 1 \<and>
   map_sum id (\<lambda>d. map (\<lambda>z. (zone_id z, photo_count z)) (zones d))
     (update_zone False ''2025-01-03T10:00:00.000900'' zones_overlap 18.524 73.8567 4
        default_radius) = Inr [(1, 2), (2, 1)]"
  using get_zone_by_location_first_match [of store_13 "18.5205" "73.8568" default_radius]
    get_zone_by_location_first_match [of store_13 19 "73.8568" default_radius]
    get_zone_by_location_first_match [of zones_overlap "18.524" "73.8567" default_radius]
  by (simp add: store_13_def zones_overlap_def get_zone_by_location_def update_zone_def
        in_cell_def default_radius_def py_int_def)

subsection \<open>C6: the level as the truncated weighted average\<close>

text \<open>
  Claim C6 states that every zone level is an integer between 0 and 10 obtained by
  truncating the weighted average. The levels do stay between 0 and 10
  (\<open>run_updates_level_range\<close>), and \<open>int\<close> truncates; but the number truncated is not the
  weighted average, by the slip of C1. A zone of level 10 and count 1 that receives a
  report of severity 0 gets level 6; the weighted average of the two reports is 5.
\<close>

theorem update_zone_level_above_average:
  "update_zone False ''2025-01-01T10:00:00.000900'' empty_db 18.5204 73.8567 10 default_radius =
     Inr zones_10 \<and>
   update_zone False ''2025-01-02T10:00:00.000900'' zones_10 18.5205 73.8568 0 default_radius =
     Inr (zones_10\<lparr>zones :=
       [\<lparr>zone_id = 1, center_lat = 18.5204, center_lng = 73.8567, radius = 0.005,
         waste_level = 6, photo_count = 2, last_updated = ''2025-01-02T10:00:00.000900''\<rparr>]\<rparr>) \<and>
   \<lfloor>((10::real) * 1 + 0) / (1 + 1)\<rfloor> = (5::int)"
  by (simp add: run_defs zones_10_def)

subsection \<open>C7: the order of \<open>get_all_zones\<close>\<close>

text \<open>
  Claim C7 states that zones of equal level are listed most recently updated first. The
  query orders by \<open>waste_level\<close> alone: after the first and the third zone update both
  zones have level 8, and the zone updated a day later is listed second.
\<close>

theorem get_all_zones_tie_counterexample:
  "map (\<lambda>z. (zone_id z, waste_level z, last_updated z))
     (get_all_zones (run_updates default_radius empty_db [update_1, update_3])) =
     [(1, 8, ''2025-01-01T10:00:00.000900''), (2, 8, ''2025-01-02T10:00:00.000900'')] \<and>
   (''2025-01-01T10:00:00.000900'' :: string) < ''2025-01-02T10:00:00.000900''"
  by (simp add: run_defs get_all_zones_def order_by_desc_def)

text \<open>
  Claim C7 as amended: \<open>get_all_zones\<close> returns every zone row exactly once, in
  descending order of \<open>waste_level\<close>.
\<close>

theorem get_all_zones_order:
  "mset (get_all_zones db) = mset (zones db) \<and>
   sorted_wrt (\<lambda>a b. waste_level b \<le> waste_level a) (get_all_zones db)"
  by (simp add: get_all_zones_def mset_order_by_desc sorted_order_by_desc)

theorem get_all_zones_order_witness:
  "mset (get_all_zones (run_updates default_radius empty_db [update_1, update_3, update_2])) =
   mset (zones (run_updates default_radius empty_db [update_1, update_3, update_2])) \<and>
   map (\<lambda>z. (zone_id z, waste_level z))
     (get_all_zones (run_updates default_radius empty_db [update_1, update_3, update_2])) =
     [(2, 8), (1, 6)]"
  using get_all_zones_order [of "run_updates default_radius empty_db [update_1, update_3, update_2]"]
  by (simp add: run_defs get_all_zones_def order_by_desc_def)

subsection \<open>C8: reports in a bounding box\<close>

text \<open>
  Claim C8: with all four bounds given, \<open>get_photos\<close> returns exactly the stored photos
  with \<open>south \<le> latitude \<le> north\<close> and \<open>west \<le> longitude \<le> east\<close>, each once; with a
  bound missing it returns every stored photo; in both cases in descending order of
  \<open>timestamp\<close>.
\<close>

theorem get_photos_bounds:
  "mset (get_photos db (Some n) (Some s) (Some e) (Some w)) =
     mset (filter (\<lambda>p. s \<le> latitude p \<and> latitude p \<le> n \<and> w \<le> longitude p \<and> longitude p \<le> e)
            (photos db)) \<and>
   (north = None \<or> south = None \<or> east = None \<or> west = None \<longrightarrow>
      mset (get_photos db north south east west) = mset (photos db)) \<and>
   sorted_wrt (\<lambda>a b. timestamp b \<le> timestamp a) (get_photos db north south east west)"
proof (intro conjI impI)
  have "filter (\<lambda>p. latitude p \<le> n \<and> s \<le> latitude p \<and> longitude p \<le> e \<and> w \<le> longitude p)
          (photos db) =
        filter (\<lambda>p. s \<le> latitude p \<and> latitude p \<le> n \<and> w \<le> longitude p \<and> longitude p \<le> e)
          (photos db)"
    by (rule filter_cong) auto
  then show "mset (get_photos db (Some n) (Some s) (Some e) (Some w)) =
     mset (filter (\<lambda>p. s \<le> latitude p \<and> latitude p \<le> n \<and> w \<le> longitude p \<and> longitude p \<le> e)
            (photos db))"
    by (simp add: get_photos_def get_photos_in_bounds_def mset_order_by_desc del: mset_filter)
next
  assume "north = None \<or> south = None \<or> east = None \<or> west = None"
  then have "get_photos db north south east west = get_all_photos db"
    by (auto simp: get_photos_def split: option.splits)
  then show "mset (get_photos db north south east west) = mset (photos db)"
    by (simp add: get_all_photos_def mset_order_by_desc)
next
  show "sorted_wrt (\<lambda>a b. timestamp b \<le> timestamp a) (get_photos db north south east west)"
    by (simp add: get_photos_def get_photos_in_bounds_def get_all_photos_def sorted_order_by_desc
             split: option.splits)
qed

theorem get_photos_bounds_witness:
  "map photo_id (get_photos store_13 (Some 18.53) (Some 18.51) (Some 73.87) (Some 73.85)) = [1] \<and>
   map photo_id (get_photos store_13 (Some 18.53) None (Some 73.87) (Some 73.85)) = [2, 1] \<and>
   mset (get_photos store_13 (Some 18.53) None (Some 73.87) (Some 73.85)) = mset (photos store_13)"
  using get_photos_bounds [where db = store_13 and n = "18.53" and s = "18.51" and e = "73.87"
      and w = "73.85" and north = "Some 18.53" and south = None and east = "Some 73.87"
      and west = "Some 73.85"]
  by (simp add: store_13_def get_photos_def get_photos_in_bounds_def get_all_photos_def order_by_desc_def)

subsection \<open>C9: the stored radius is never read\<close>

text \<open>
  Claim C9: every zone row of a store built by uploads, or by zone updates at the default
  radius, has radius 0.005; and for two stores whose zone rows agree in every column
  except \<open>radius\<close>, both lookups answer alike: \<open>get_zone_by_location\<close> returns the same row
  up to its radius, and \<open>update_zone\<close> fails with the same error or leaves zone rows that
  again agree except in \<open>radius\<close>.
\<close>

theorem stored_radius_unused:
  "(\<forall>z\<in>set (zones (replay empty_db cs)). radius z = default_radius) \<and>
   (\<forall>z\<in>set (zones (run_updates default_radius empty_db us)). radius z = default_radius) \<and>
   (map forget_radius (zones db1) = map forget_radius (zones db2) \<longrightarrow>
      map_option forget_radius (fst (get_zone_by_location db1 lat lng rad)) =
      map_option forget_radius (fst (get_zone_by_location db2 lat lng rad)) \<and>
      rel_sum (=) (\<lambda>d1 d2. map forget_radius (zones d1) = map forget_radius (zones d2))
        (update_zone f now db1 lat lng sev rad) (update_zone f now db2 lat lng sev rad))"
proof (intro conjI impI)
  show "\<forall>z\<in>set (zones (replay empty_db cs)). radius z = default_radius"
    by (simp add: replay_unchanged empty_db_def)
next
  show "\<forall>z\<in>set (zones (run_updates default_radius empty_db us)). radius z = default_radius"
    by (rule run_updates_radius)
next
  assume rel: "map forget_radius (zones db1) = map forget_radius (zones db2)"
  have "in_cell lat lng rad (forget_radius z) = in_cell lat lng rad z" for z
    by (simp add: in_cell_def forget_radius_def)
  with rel show "map_option forget_radius (fst (get_zone_by_location db1 lat lng rad)) =
      map_option forget_radius (fst (get_zone_by_location db2 lat lng rad))"
    unfolding get_zone_by_location_def fst_conv by (rule find_related)
  show "rel_sum (=) (\<lambda>d1 d2. map forget_radius (zones d1) = map forget_radius (zones d2))
        (update_zone f now db1 lat lng sev rad) (update_zone f now db2 lat lng sev rad)"
    using update_zone_related_radius [OF rel, of f now lat lng sev rad]
    by (cases "update_zone f now db1 lat lng sev rad";
        cases "update_zone f now db2 lat lng sev rad") simp_all
qed

theorem stored_radius_unused_witness:
  "list_all (\<lambda>z. radius z = default_radius)
     (zones (replay empty_db [(clock_1, report_1), (clock_2, report_3)])) \<and>
   list_all (\<lambda>z. radius z = default_radius)
     (zones (run_updates default_radius empty_db [update_1, update_3])) \<and>
   map radius (zones (run_updates default_radius empty_db [update_1, update_3])) = [0.005, 0.005] \<and>
   map forget_radius (zones store_1) =
   map forget_radius (zones (store_1\<lparr>zones := map (\<lambda>z. z\<lparr>radius := 50\<rparr>) (zones store_1)\<rparr>)) \<and>
   map_option forget_radius (fst (get_zone_by_location store_1 18.6 73.9 default_radius)) =
   map_option forget_radius (fst (get_zone_by_location
      (store_1\<lparr>zones := map (\<lambda>z. z\<lparr>radius := 50\<rparr>) (zones store_1)\<rparr>) 18.6 73.9 default_radius)) \<and>
   fst (get_zone_by_location
      (store_1\<lparr>zones := map (\<lambda>z. z\<lparr>radius := 50\<rparr>) (zones store_1)\<rparr>) 18.6 73.9 default_radius) = None"
  using stored_radius_unused [of "[(clock_1, report_1), (clock_2, report_3)]"
      "[update_1, update_3]" store_1
      "store_1\<lparr>zones := map (\<lambda>z. z\<lparr>radius := 50\<rparr>) (zones store_1)\<rparr>"
      "18.6" "73.9" default_radius False "''2025-01-02T10:00:00.000900''" 8]
  unfolding run_updates_13 replay_unchanged
  by (simp add: empty_db_def store_13_def store_1_def forget_radius_def
        get_zone_by_location_def in_cell_def default_radius_def)

subsection \<open>C10: what \<open>update_zone\<close> leaves alone\<close>

text \<open>
  Claim C10: on a store with distinct zone ids (the primary key), a returning call of
  \<open>update_zone\<close> leaves every photo row unchanged and either appends one zone row,
  leaving the existing rows unchanged, or changes one existing row, and there only
  \<open>waste_level\<close>, \<open>photo_count\<close> and \<open>last_updated\<close>. A raising call changes nothing.
  Stores built by zone updates have distinct zone ids (\<open>run_updates_ids_distinct\<close>).
\<close>

theorem update_zone_frame:
  assumes "distinct (map zone_id (zones db))"
    and "update_zone f now db lat lng sev rad = Inr db'"
  shows "photos db' = photos db \<and>
    ((\<exists>z. zones db' = zones db @ [z]) \<or>
     (\<exists>i lvl cnt. i < length (zones db) \<and>
        zones db' = (zones db)[i := (zones db ! i)
           \<lparr>waste_level := lvl, photo_count := cnt, last_updated := now\<rparr>]))"
  using assms(2)
proof (cases rule: update_zone_cases)
  case created
  then show ?thesis by simp
next
  case (updated z0)
  from updated(1) obtain i where i: "i < length (zones db)" "z0 = zones db ! i"
    by (auto simp: find_Some_iff)
  have "zones db' = (zones db)[i := (zones db ! i)
      \<lparr>waste_level := py_int ((real_of_int (waste_level z0 * (photo_count z0 + 1)) + sev) /
                                real_of_int (photo_count z0 + 2)),
       photo_count := photo_count z0 + 1, last_updated := now\<rparr>]"
    unfolding updated(4) i(2) using map_update_at [OF assms(1) i(1)] by simp
  with i(1) updated(4) show ?thesis by auto
qed

theorem update_zone_frame_witness:
  "distinct (map zone_id (zones store_1)) \<and>
   update_zone False ''2025-01-02T10:00:00.000900'' store_1 18.5205 73.8568 4 default_radius =
     Inr store_12 \<and>
   photos store_12 = photos store_1 \<and>
   ((\<exists>z. zones store_12 = zones store_1 @ [z]) \<or>
    (\<exists>i lvl cnt. i < length (zones store_1) \<and>
       zones store_12 = (zones store_1)[i := (zones store_1 ! i)
          \<lparr>waste_level := lvl, photo_count := cnt,
           last_updated := ''2025-01-02T10:00:00.000900''\<rparr>]))"
proof -
  have d: "distinct (map zone_id (zones store_1))" by (simp add: store_1_def)
  from update_zone_frame [OF d update_store_1] d update_store_1 show ?thesis by blast
qed

end
